theory Spec2Isabelle
  imports Complex_Main
begin

section \<open>RTI-Helper: temporal sampling, trimming and artifact bookkeeping\<close>

text \<open>
  A shallow embedding of the parts of \<^verbatim>\<open>video_processing.py\<close>, \<^verbatim>\<open>cli.py\<close>,
  \<^verbatim>\<open>file_management.py\<close> and \<^verbatim>\<open>utils.py\<close> that compute capture instants, trim
  windows, time strings and the list of created files.

  Numbers. The Python code computes with \<^verbatim>\<open>int\<close> and \<^verbatim>\<open>float\<close> values. Instants,
  durations, offsets and intervals are modelled as exact rationals (\<^typ>\<open>rat\<close>): every
  formula is evaluated exactly and the rounding of binary floating point is not modelled.
  Counts and whole seconds are Python's unbounded integers (\<^typ>\<open>int\<close>).
\<close>

subsection \<open>Exceptions\<close>

text \<open>
  The exception classes of \<^verbatim>\<open>exceptions.py\<close> that the modelled functions raise, each with
  its message, and the built-in exceptions that escape from them.
\<close>

datatype error =
    InvalidTimeError string
  | FFmpegVideoTrimError string
  | FFmpegAudioTrimError string
  | VideoProcessingError string
  | FileManagementError string
  | ZeroDivisionError
  | OverflowError
  | ValueError
  | AttributeError
  | EOFError
  | OSError

subsection \<open>Trim windows: \<^verbatim>\<open>VideoProcessor.calculate_time_offsets\<close>\<close>

text \<open>
  The function consists of four \<^verbatim>\<open>max\<close>/\<^verbatim>\<open>min\<close> expressions and a \<^verbatim>\<open>return\<close>; it has no
  \<^verbatim>\<open>raise\<close> and no check of its arguments, so its model is a total function into the
  4-tuple it returns.
\<close>

definition calculate_time_offsets ::
  "rat \<Rightarrow> rat \<Rightarrow> rat \<Rightarrow> rat \<Rightarrow> rat \<Rightarrow> rat \<Rightarrow> rat \<times> rat \<times> rat \<times> rat" where
  "calculate_time_offsets timestamp video_duration start_offset_seconds end_offset_seconds
       start_audio_offset_seconds end_audio_offset_seconds =
     (let video_start_time = max 0 (timestamp - start_offset_seconds);
          video_end_time = min (timestamp + end_offset_seconds) video_duration;
          audio_start_time = max 0 (timestamp - start_audio_offset_seconds);
          audio_end_time = min (timestamp + end_audio_offset_seconds) video_duration
      in (video_start_time, video_end_time, audio_start_time, audio_end_time))"

text \<open>The TrimWindow invariant of the data model: \<open>0 \<le> start \<le> end \<le> duration\<close>.\<close>

definition trim_window_ok :: "rat \<Rightarrow> rat \<times> rat \<Rightarrow> bool" where
  "trim_window_ok video_duration w \<longleftrightarrow>
     0 \<le> fst w \<and> fst w \<le> snd w \<and> snd w \<le> video_duration"

definition video_window :: "rat \<times> rat \<times> rat \<times> rat \<Rightarrow> rat \<times> rat" where
  "video_window r = (fst r, fst (snd r))"

definition audio_window :: "rat \<times> rat \<times> rat \<times> rat \<Rightarrow> rat \<times> rat" where
  "audio_window r = (fst (snd (snd r)), snd (snd (snd r)))"

subsection \<open>Interval validation: \<^verbatim>\<open>VideoProcessor.validate_frame_capture_interval\<close>\<close>

text \<open>Python's \<^verbatim>\<open>int(x)\<close> on a non-integral number truncates toward zero.\<close>

definition py_int :: "rat \<Rightarrow> int" where
  "py_int x = (if 0 \<le> x then floor x else ceiling x)"

text \<open>
  The result is the returned interval together with the warning that \<^verbatim>\<open>logging.warning\<close>
  receives, if any: the pair of the requested and the adjusted interval that the message
  is formatted from. \<^verbatim>\<open>1 / frame_rate\<close> raises \<^verbatim>\<open>ZeroDivisionError\<close> at zero.
\<close>

definition validate_frame_capture_interval ::
  "rat \<Rightarrow> rat \<Rightarrow> error + (rat \<times> (rat \<times> rat) option)" where
  "validate_frame_capture_interval frame_rate frame_capture_interval =
     (if frame_rate = 0 then Inl ZeroDivisionError
      else
        let min_interval = 1 / frame_rate in
        if frame_capture_interval < min_interval then
          let adjusted_interval =
                of_int (py_int (frame_capture_interval / min_interval) + 1) * min_interval
          in Inr (adjusted_interval, Some (frame_capture_interval, adjusted_interval))
        else Inr (frame_capture_interval, None))"



subsection \<open>Capture schedule: \<^verbatim>\<open>VideoProcessor.prepare_frame_capture_timestamps\<close>\<close>







subsection \<open>Time strings: \<^verbatim>\<open>valid_time\<close> and \<^verbatim>\<open>datetime.strptime\<close>\<close>

text \<open>
  \<^verbatim>\<open>valid_time\<close> calls \<^verbatim>\<open>datetime.strptime(s, fmt)\<close> for \<^verbatim>\<open>'%H:%M:%S'\<close> and then
  \<^verbatim>\<open>'%M:%S'\<close>. CPython turns a format into a regular expression, one group per directive:
  \<^verbatim>\<open>%H\<close> is \<^verbatim>\<open>2[0-3]|[0-1]\d|\d\<close>, \<^verbatim>\<open>%M\<close> is \<^verbatim>\<open>[0-5]\d|\d\<close> and \<^verbatim>\<open>%S\<close> is
  \<^verbatim>\<open>6[0-1]|[0-5]\d|\d\<close>. It matches the expression at the start of the string, raises
  \<^verbatim>\<open>ValueError\<close> when there is no match or when unconverted characters remain, converts
  the groups with \<^verbatim>\<open>int\<close>, and builds a \<^verbatim>\<open>datetime\<close>, which raises \<^verbatim>\<open>ValueError\<close> for a
  second above 59. The model follows these steps. A character class is the list of its
  characters; an alternative is a list of classes; alternatives are tried in order, with
  backtracking into the rest of the format. Characters are 8-bit, so \<^verbatim>\<open>\d\<close> is
  \<open>0\<close> to \<open>9\<close> (Python's \<^verbatim>\<open>\d\<close> also accepts the decimal digits of other scripts).
\<close>

definition digit :: string where
  "digit = ''0123456789''"

datatype directive = DH | DM | DS

datatype item = Directive directive | Literal char

definition directive_alts :: "directive \<Rightarrow> string list list" where
  "directive_alts d =
     (case d of
        DH \<Rightarrow> [[''2'', ''0123''], [''01'', digit], [digit]]
      | DM \<Rightarrow> [[''012345'', digit], [digit]]
      | DS \<Rightarrow> [[''6'', ''01''], [''012345'', digit], [digit]])"

text \<open>One alternative against a prefix of the input: the matched text and the rest.\<close>

fun match_seq :: "string list \<Rightarrow> string \<Rightarrow> (string \<times> string) option" where
  "match_seq [] s = Some ([], s)"
| "match_seq (cls # clss) [] = None"
| "match_seq (cls # clss) (c # s) =
     (if c \<in> set cls
      then (case match_seq clss s of None \<Rightarrow> None | Some (g, r) \<Rightarrow> Some (c # g, r))
      else None)"

text \<open>
  The whole format against a prefix of the input: the groups found, in order, and the
  unmatched rest. \<open>try_alts\<close> takes the first alternative after which the rest of the
  format matches.
\<close>

fun re_match :: "item list \<Rightarrow> string \<Rightarrow> ((directive \<times> string) list \<times> string) option"
  and try_alts :: "directive \<Rightarrow> string list list \<Rightarrow> item list \<Rightarrow> string
         \<Rightarrow> ((directive \<times> string) list \<times> string) option" where
  "re_match [] s = Some ([], s)"
| "re_match (Literal c # items) [] = None"
| "re_match (Literal c # items) (x # s) = (if x = c then re_match items s else None)"
| "re_match (Directive d # items) s = try_alts d (directive_alts d) items s"
| "try_alts d [] items s = None"
| "try_alts d (alt # alts) items s =
     (case match_seq alt s of
        None \<Rightarrow> try_alts d alts items s
      | Some (g, r) \<Rightarrow>
          (case re_match items r of
             None \<Rightarrow> try_alts d alts items s
           | Some (found, rest) \<Rightarrow> Some ((d, g) # found, rest)))"

text \<open>\<^verbatim>\<open>int(g)\<close> for a string of decimal digits.\<close>

definition py_int_str :: "string \<Rightarrow> int" where
  "py_int_str g = foldl (\<lambda>n c. 10 * n + (of_char c - 48)) 0 g"

text \<open>A directive that the format lacks keeps its default, 0.\<close>

definition group_int :: "(directive \<times> string) list \<Rightarrow> directive \<Rightarrow> int" where
  "group_int found d = (case map_of found d of None \<Rightarrow> 0 | Some g \<Rightarrow> py_int_str g)"

text \<open>The result is the triple \<^verbatim>\<open>(hour, minute, second)\<close> of the parsed \<^verbatim>\<open>datetime\<close>.\<close>

definition strptime :: "string \<Rightarrow> item list \<Rightarrow> error + (int \<times> int \<times> int)" where
  "strptime data_string format =
     (case re_match format data_string of
        None \<Rightarrow> Inl ValueError
      | Some (found, rest) \<Rightarrow>
          if rest \<noteq> [] then Inl ValueError
          else
            let hour = group_int found DH;
                minute = group_int found DM;
                second = group_int found DS
            in if second > 59 then Inl ValueError else Inr (hour, minute, second))"

definition fmt_HMS :: "item list" where
  "fmt_HMS = [Directive DH, Literal CHR '':'', Directive DM, Literal CHR '':'', Directive DS]"

definition fmt_MS :: "item list" where
  "fmt_MS = [Directive DM, Literal CHR '':'', Directive DS]"

definition formats :: "item list list" where
  "formats = [fmt_HMS, fmt_MS]"

text \<open>
  The loop over \<^verbatim>\<open>formats\<close>: the first format that parses returns, a \<^verbatim>\<open>ValueError\<close> moves
  on to the next format, and after the last one \<^verbatim>\<open>InvalidTimeError\<close> is raised. The
  error carries the string that its message is formatted from.
\<close>

fun valid_time_loop :: "string \<Rightarrow> item list list \<Rightarrow> error + int" where
  "valid_time_loop s [] = Inl (InvalidTimeError s)"
| "valid_time_loop s (time_format # rest) =
     (case strptime s time_format of
        Inr (hour, minute, second) \<Rightarrow> Inr (hour * 3600 + minute * 60 + second)
      | Inl ValueError \<Rightarrow> valid_time_loop s rest
      | Inl e \<Rightarrow> Inl e)"

definition valid_time :: "string \<Rightarrow> error + int" where
  "valid_time s = valid_time_loop s formats"

subsection \<open>Time strings: \<^verbatim>\<open>VideoProcessor.format_seconds_to_hhmmss\<close>\<close>

text \<open>\<^verbatim>\<open>strftime\<close>'s \<^verbatim>\<open>%H\<close>, \<^verbatim>\<open>%M\<close> and \<^verbatim>\<open>%S\<close>: two decimal digits, zero-padded.\<close>

definition two_digits :: "int \<Rightarrow> string" where
  "two_digits n = [char_of (48 + n div 10), char_of (48 + n mod 10)]"

text \<open>
  For a whole number of seconds (the documented argument type).
  \<^verbatim>\<open>datetime.min + timedelta(seconds=seconds)\<close> is the instant \<^verbatim>\<open>seconds\<close> after
  0001-01-01 00:00:00 and raises \<^verbatim>\<open>OverflowError\<close> outside the years 1 to 9999, that is
  for a negative argument and from \<open>3652059 * 86400 = 315537897600\<close> on. \<^verbatim>\<open>.time()\<close> keeps
  the time of day.
\<close>

definition format_seconds_to_hhmmss :: "int \<Rightarrow> error + string" where
  "format_seconds_to_hhmmss seconds =
     (if seconds < 0 \<or> 315537897600 \<le> seconds then Inl OverflowError
      else
        let time_of_day = seconds mod 86400;
            hour = time_of_day div 3600;
            minute = time_of_day mod 3600 div 60;
            second = time_of_day mod 60
        in if hour > 0
           then Inr (two_digits hour @ '':'' @ two_digits minute @ '':'' @ two_digits second)
           else Inr (two_digits minute @ '':'' @ two_digits second))"

text \<open>
  The specification's canonical rendering of a time string: its fields, separated by
  colons and read as numbers, rendered with two digits each, as \<open>HH:MM:SS\<close> when there is
  an hour field and it is nonzero, else as \<open>MM:SS\<close>.
\<close>

fun split_on :: "char \<Rightarrow> string \<Rightarrow> string list" where
  "split_on c [] = [[]]"
| "split_on c (x # xs) =
     (if x = c then [] # split_on c xs
      else (case split_on c xs of [] \<Rightarrow> [[x]] | f # fs \<Rightarrow> (x # f) # fs))"

definition canonical :: "string \<Rightarrow> string" where
  "canonical s =
     (case map py_int_str (split_on CHR '':'' s) of
        [h, m, sec] \<Rightarrow>
          if h \<noteq> 0 then two_digits h @ '':'' @ two_digits m @ '':'' @ two_digits sec
          else two_digits m @ '':'' @ two_digits sec
      | [m, sec] \<Rightarrow> two_digits m @ '':'' @ two_digits sec
      | _ \<Rightarrow> s)"

text \<open>
  What a successful match means: the input is the groups and the literals of the format
  in order, followed by the rest, and each group consists of characters of the classes of
  one alternative of its directive.
\<close>

definition in_classes :: "string \<Rightarrow> string list \<Rightarrow> bool" where
  "in_classes g alt \<longleftrightarrow> list_all2 (\<lambda>c cls. c \<in> set cls) g alt"

definition field :: "directive \<Rightarrow> string \<Rightarrow> bool" where
  "field d g \<longleftrightarrow> (\<exists>alt \<in> set (directive_alts d). in_classes g alt)"

fun matched :: "item list \<Rightarrow> (directive \<times> string) list \<Rightarrow> string \<Rightarrow> string \<Rightarrow> bool" where
  "matched [] found s r \<longleftrightarrow> found = [] \<and> s = r"
| "matched (Literal c # items) found s r \<longleftrightarrow> (\<exists>s'. s = c # s' \<and> matched items found s' r)"
| "matched (Directive d # items) found s r \<longleftrightarrow>
     (\<exists>g found' s'. found = (d, g) # found' \<and> field d g \<and> s = g @ s'
        \<and> matched items found' s' r)"

subsection \<open>Paths and the file system\<close>

text \<open>
  A \<^verbatim>\<open>pathlib.Path\<close> is modelled by its two parts: the directory it lies in (the string
  of \<^verbatim>\<open>.parent\<close>) and its final component \<^verbatim>\<open>.name\<close>; two paths are equal when both
  parts are. The separator is \<open>/\<close> (POSIX flavour).
\<close>

datatype path = Path (parent: string) (name: string)

text \<open>\<^verbatim>\<open>str.rfind(c)\<close>: the highest index of \<open>c\<close>, or \<open>-1\<close>.\<close>

fun rfind :: "char \<Rightarrow> string \<Rightarrow> int" where
  "rfind c [] = - 1"
| "rfind c (x # xs) =
     (let r = rfind c xs in if 0 \<le> r then r + 1 else if x = c then 0 else - 1)"

text \<open>
  \<^verbatim>\<open>PurePath.suffix\<close>: with \<^verbatim>\<open>i = name.rfind('.')\<close>, the text from the last dot on when
  \<^verbatim>\<open>0 < i < len(name) - 1\<close>, else the empty string.
\<close>

definition suffix :: "path \<Rightarrow> string" where
  "suffix p =
     (let i = rfind CHR ''.'' (name p)
      in if 0 < i \<and> i < int (length (name p)) - 1 then drop (nat i) (name p) else [])"

text \<open>
  \<^verbatim>\<open>PurePath.with_name\<close>: \<^verbatim>\<open>ValueError\<close> when the path has no name or the new name is
  empty, contains the separator or is a single dot.
\<close>

definition with_name :: "path \<Rightarrow> string \<Rightarrow> error + path" where
  "with_name p new_name =
     (if name p = [] then Inl ValueError
      else if new_name = [] \<or> CHR ''/'' \<in> set new_name \<or> new_name = ''.'' then Inl ValueError
      else Inr (Path (parent p) new_name))"

text \<open>\<^verbatim>\<open>str(n)\<close> for a non-negative integer: its decimal digits.\<close>

fun str_nat :: "nat \<Rightarrow> string" where
  "str_nat n =
     (if n < 10 then [char_of (48 + n)] else str_nat (n div 10) @ [char_of (48 + n mod 10)])"

text \<open>The equation of \<open>str_nat\<close> is unfolded on demand only.\<close>

declare str_nat.simps [simp del]

text \<open>
  The messages that \<^verbatim>\<open>logging.info\<close> and \<^verbatim>\<open>logging.error\<close> receive on a deletion, by
  the path they are about.
\<close>

datatype log_event = Deleted path | DeleteFailed path

text \<open>
  The part of the outside world that the functions below read and change: the files that
  exist, the files among them that the operating system refuses to delete or rename
  (\<^verbatim>\<open>unlink\<close> and \<^verbatim>\<open>rename\<close> raise \<^verbatim>\<open>OSError\<close> for them, as they do for a missing file),
  the lines still to be read by \<^verbatim>\<open>input()\<close>, and the log.
\<close>

record world =
  files :: "path set"
  protected :: "path set"
  stdin :: "string list"
  log :: "log_event list"

definition unlink :: "path \<Rightarrow> world \<Rightarrow> error + world" where
  "unlink p w =
     (if p \<in> files w \<and> p \<notin> protected w then Inr (w\<lparr>files := files w - {p}\<rparr>)
      else Inl OSError)"

text \<open>\<^verbatim>\<open>Path.rename\<close> replaces an existing target, as \<^verbatim>\<open>rename(2)\<close> does.\<close>

definition rename :: "path \<Rightarrow> path \<Rightarrow> world \<Rightarrow> error + world" where
  "rename src dst w =
     (if src \<in> files w \<and> src \<notin> protected w
      then Inr (w\<lparr>files := insert dst (files w - {src})\<rparr>)
      else Inl OSError)"

subsection \<open>Renaming: \<^verbatim>\<open>rename_files_with_vrn\<close>\<close>

text \<open>
  The \<^verbatim>\<open>for\<close> loop over \<^verbatim>\<open>created_files\<close>, with \<^verbatim>\<open>frame_capture_index\<close> and
  \<^verbatim>\<open>new_filenames\<close> as accumulators. The list \<^verbatim>\<open>frame_captures\<close> that the function sorts
  before the loop is never read and is left out. \<^verbatim>\<open>with_name\<close> is called outside the
  \<^verbatim>\<open>try\<close> blocks, so its \<^verbatim>\<open>ValueError\<close> escapes as it is; an \<^verbatim>\<open>OSError\<close> of \<^verbatim>\<open>unlink\<close> or
  \<^verbatim>\<open>rename\<close> is raised again as \<^verbatim>\<open>FileManagementError\<close>, which here carries the fixed
  part of its message. The result is the returned list or the error, and the world as it
  is then.
\<close>

definition attempt_rename ::
  "path \<Rightarrow> path \<Rightarrow> world \<Rightarrow> error + world" where
  "attempt_rename temp_filename new_filename w =
     (case rename temp_filename new_filename w of
        Inr w' \<Rightarrow> Inr w'
      | Inl e \<Rightarrow> Inl (FileManagementError ''An error occurred while renaming file''))"

fun rename_loop ::
  "string \<Rightarrow> path list \<Rightarrow> nat \<Rightarrow> path list \<Rightarrow> world \<Rightarrow> (error + path list) \<times> world" where
  "rename_loop actual_vrn [] frame_capture_index new_filenames w = (Inr new_filenames, w)"
| "rename_loop actual_vrn (temp_filename # rest) frame_capture_index new_filenames w =
     (if suffix temp_filename = ''.mp4'' then
        (case with_name temp_filename (actual_vrn @ suffix temp_filename) of
           Inl e \<Rightarrow> (Inl e, w)
         | Inr new_filename \<Rightarrow>
             (case attempt_rename temp_filename new_filename w of
                Inl e \<Rightarrow> (Inl e, w)
              | Inr w' \<Rightarrow>
                  rename_loop actual_vrn rest frame_capture_index
                    (new_filenames @ [new_filename]) w'))
      else if suffix temp_filename = ''.jpg'' then
        (case with_name temp_filename
                (actual_vrn @ ''_frame_'' @ str_nat frame_capture_index @ suffix temp_filename) of
           Inl e \<Rightarrow> (Inl e, w)
         | Inr new_filename \<Rightarrow>
             (case attempt_rename temp_filename new_filename w of
                Inl e \<Rightarrow> (Inl e, w)
              | Inr w' \<Rightarrow>
                  rename_loop actual_vrn rest (frame_capture_index + 1)
                    (new_filenames @ [new_filename]) w'))
      else if suffix temp_filename \<in> set [''.wav'', ''.mp3'', ''.aac''] then
        (case unlink temp_filename w of
           Inl e \<Rightarrow>
             (Inl (FileManagementError ''An error occurred while deleting audio file''), w)
         | Inr w' \<Rightarrow> rename_loop actual_vrn rest frame_capture_index new_filenames w')
      else rename_loop actual_vrn rest frame_capture_index (new_filenames @ [temp_filename]) w)"

definition rename_files_with_vrn ::
  "path list \<Rightarrow> string \<Rightarrow> world \<Rightarrow> (error + path list) \<times> world" where
  "rename_files_with_vrn created_files actual_vrn w = rename_loop actual_vrn created_files 1 [] w"





subsection \<open>Cleanup: \<^verbatim>\<open>cleanup\<close>\<close>

text \<open>
  \<^verbatim>\<open>str.strip()\<close> removes leading and trailing whitespace and \<^verbatim>\<open>str.lower()\<close> maps
  upper-case letters to lower case. A character is read as the code point of its byte
  (Latin-1): the whitespace code points below 256 are 9 to 13, 28 to 32, 133 and 160, and
  the upper-case ones are 65 to 90 and 192 to 222 except 215.
\<close>

definition is_space :: "char \<Rightarrow> bool" where
  "is_space c \<longleftrightarrow>
     (let n = (of_char c :: nat)
      in (9 \<le> n \<and> n \<le> 13) \<or> (28 \<le> n \<and> n \<le> 32) \<or> n = 133 \<or> n = 160)"

definition strip :: "string \<Rightarrow> string" where
  "strip s = rev (dropWhile is_space (rev (dropWhile is_space s)))"

definition lower_char :: "char \<Rightarrow> char" where
  "lower_char c =
     (let n = (of_char c :: nat)
      in if (65 \<le> n \<and> n \<le> 90) \<or> (192 \<le> n \<and> n \<le> 222 \<and> n \<noteq> 215)
         then char_of (n + 32) else c)"

definition lower :: "string \<Rightarrow> string" where
  "lower s = map lower_char s"

text \<open>
  The \<^verbatim>\<open>try\<close> block of \<^verbatim>\<open>cleanup\<close>: \<^verbatim>\<open>unlink\<close> and an info message, or an error message
  when \<^verbatim>\<open>unlink\<close> raises \<^verbatim>\<open>OSError\<close>. The error is not raised again.
\<close>

definition try_unlink :: "path \<Rightarrow> world \<Rightarrow> world" where
  "try_unlink temp_filename w =
     (case unlink temp_filename w of
        Inr w' \<Rightarrow> w'\<lparr>log := log w' @ [Deleted temp_filename]\<rparr>
      | Inl e \<Rightarrow> w\<lparr>log := log w @ [DeleteFailed temp_filename]\<rparr>)"

text \<open>
  The loop over \<^verbatim>\<open>created_files\<close>. \<^verbatim>\<open>input()\<close> takes the next line of standard input and
  raises \<^verbatim>\<open>EOFError\<close> when there is none; the error leaves the function. The result is the
  escaping error, if any, and the world as it is then.
\<close>

fun cleanup :: "string \<Rightarrow> path list \<Rightarrow> bool \<Rightarrow> world \<Rightarrow> error option \<times> world" where
  "cleanup directory [] prompt_user w = (None, w)"
| "cleanup directory (temp_filename # rest) prompt_user w =
     (if temp_filename \<notin> files w \<or> parent temp_filename \<noteq> directory
      then cleanup directory rest prompt_user w
      else if prompt_user then
        (case stdin w of
           [] \<Rightarrow> (Some EOFError, w)
         | line # lines \<Rightarrow>
             (let user_input = lower (strip line)
              in if user_input \<notin> set ['''', ''y'', ''yes'']
                 then cleanup directory rest prompt_user (w\<lparr>stdin := lines\<rparr>)
                 else cleanup directory rest prompt_user
                        (try_unlink temp_filename (w\<lparr>stdin := lines\<rparr>))))
      else cleanup directory rest prompt_user (try_unlink temp_filename w))"

text \<open>The files that a log records a deletion attempt for, successful or not.\<close>

definition attempted :: "log_event list \<Rightarrow> path set" where
  "attempted l = {p. Deleted p \<in> set l \<or> DeleteFailed p \<in> set l}"

subsection \<open>The transcoding engine and the list of created files\<close>

text \<open>
  The external engine is a parameter: it maps a command to the outcome of \<^verbatim>\<open>.run()\<close>,
  which returns when the engine exits with status 0 and otherwise raises
  \<^verbatim>\<open>ffmpeg.Error\<close>. The error's \<^verbatim>\<open>stderr\<close> attribute is the diagnostic text of the engine,
  or \<^verbatim>\<open>None\<close> when the stream was not captured; \<^verbatim>\<open>e.stderr.decode()\<close> then raises
  \<^verbatim>\<open>AttributeError\<close>. The diagnostic is taken as text; its decoding is not modelled. A
  command that completes leaves its output file in place.
\<close>

datatype run_result = Completed | Failed "string option"

datatype ffmpeg_command =
    CaptureFrame path rat path
  | TrimAudio path rat rat path

type_synonym engine = "ffmpeg_command \<Rightarrow> run_result"



text \<open>\<^verbatim>\<open>VideoProcessor.run_ffmpeg_trim_audio\<close>, in the same style.\<close>

definition run_ffmpeg_trim_audio ::
  "engine \<Rightarrow> path \<Rightarrow> rat \<Rightarrow> rat \<Rightarrow> path \<Rightarrow> path list \<Rightarrow> world
     \<Rightarrow> error option \<times> path list \<times> world" where
  "run_ffmpeg_trim_audio engine video_path audio_start_time audio_end_time
       trimmed_audio_filename tracked w =
     (case engine (TrimAudio video_path audio_start_time audio_end_time trimmed_audio_filename) of
        Completed \<Rightarrow>
          (None, tracked @ [trimmed_audio_filename],
           w\<lparr>files := insert trimmed_audio_filename (files w)\<rparr>)
      | Failed None \<Rightarrow> (Some AttributeError, tracked, w)
      | Failed (Some err) \<Rightarrow>
          (Some (FileManagementError (''FFmpeg audio trimming error: '' @ strip err)),
           tracked, w))"

subsection \<open>A concrete run\<close>

text \<open>
  The tracked artifacts of the specification's renaming example, in a directory
  \<open>/videos\<close>; a world in which they exist next to a file of another directory; an engine
  that completes every command, one that fails with a diagnostic, and one that fails
  without a captured diagnostic.
\<close>

definition example_tracked :: "path list" where
  "example_tracked =
     [Path ''/videos'' ''video.mp4'', Path ''/videos'' ''cap_1.jpg'',
      Path ''/videos'' ''cap_2.jpg'', Path ''/videos'' ''audio.wav'']"

definition example_world :: world where
  "example_world =
     \<lparr>files = insert (Path ''/elsewhere'' ''keep.jpg'') (set example_tracked),
      protected = {}, stdin = [], log = []\<rparr>"


definition engine_fails :: engine where
  "engine_fails c = Failed (Some (''moov atom not found'' @ [CHR 0x0A]))"

definition engine_fails_uncaptured :: engine where
  "engine_fails_uncaptured c = Failed None"

section \<open>Theorems\<close>

subsection \<open>Trim windows\<close>

text \<open>
  C3. For every incident instant, duration and pre/post offsets, the window computation
  returns \<open>videoStart = max 0 (incident - videoPre)\<close> and
  \<open>videoEnd = min (incident + videoPost) duration\<close>, and the audio window by the same
  formulas with the audio offsets; incident 5, videoPre 10, videoPost 10, duration 100
  gives the video window \<open>(0, 15)\<close>.
\<close>

theorem calculate_time_offsets_formulas:
  "video_window (calculate_time_offsets incident duration videoPre videoPost audioPre audioPost)
     = (max 0 (incident - videoPre), min (incident + videoPost) duration)
   \<and> audio_window (calculate_time_offsets incident duration videoPre videoPost audioPre audioPost)
     = (max 0 (incident - audioPre), min (incident + audioPost) duration)
   \<and> video_window (calculate_time_offsets 5 100 10 10 audioPre audioPost) = (0, 15)"
  by (simp add: calculate_time_offsets_def video_window_def audio_window_def Let_def)

text \<open>
  C4 (as the code has it). The window computation has no error outcome. When the incident
  lies in \<open>[0, duration]\<close> and the four offsets are non-negative, the video and the audio
  window each satisfy \<open>0 \<le> start \<le> end \<le> duration\<close>.
\<close>

theorem calculate_time_offsets_windows_ok:
  assumes "0 \<le> incident" "incident \<le> duration"
    and "0 \<le> videoPre" "0 \<le> videoPost" "0 \<le> audioPre" "0 \<le> audioPost"
  shows "trim_window_ok duration
           (video_window
             (calculate_time_offsets incident duration videoPre videoPost audioPre audioPost))
       \<and> trim_window_ok duration
           (audio_window
             (calculate_time_offsets incident duration videoPre videoPost audioPre audioPost))"
  using assms
  by (simp add: calculate_time_offsets_def video_window_def audio_window_def Let_def
        trim_window_ok_def)

theorem calculate_time_offsets_windows_ok_witness:
  "trim_window_ok 100 (video_window (calculate_time_offsets 5 100 10 10 3 4))
   \<and> trim_window_ok 100 (audio_window (calculate_time_offsets 5 100 10 10 3 4))"
  using calculate_time_offsets_windows_ok [of 5 100 10 10 3 4] by simp

text \<open>
  A negative pre-offset moves the start past the end: with incident 50, duration 100,
  videoPre \<open>-10\<close> and videoPost 5 the function returns the video window \<open>(60, 55)\<close>, which
  breaks the invariant, and no error is raised.
\<close>

theorem calculate_time_offsets_inverted_window:
  "calculate_time_offsets 50 100 (- 10) 5 0 0 = (60, 55, 50, 50)
   \<and> \<not> trim_window_ok 100 (video_window (calculate_time_offsets 50 100 (- 10) 5 0 0))"
  by (simp add: calculate_time_offsets_def video_window_def trim_window_ok_def Let_def)

subsection \<open>Interval validation\<close>






text \<open>At the request 0 the function returns one frame period, and a zero frame rate raises.\<close>

lemma validate_frame_capture_interval_zero:
  "validate_frame_capture_interval 25 0 = Inr (1 / 25, Some (0, 1 / 25))"
  "validate_frame_capture_interval 0 r = Inl ZeroDivisionError"
  by (simp_all add: validate_frame_capture_interval_def Let_def py_int_def)

subsection \<open>Capture schedule\<close>






subsection \<open>Time strings\<close>

lemma match_seq_sound:
  "match_seq alt s = Some (g, r) \<Longrightarrow> s = g @ r \<and> in_classes g alt"
proof (induction alt s arbitrary: g r rule: match_seq.induct)
  case (1 s)
  then show ?case by (simp add: in_classes_def)
next
  case (2 cls clss)
  then show ?case by simp
next
  case (3 cls clss c s)
  then show ?case
    by (auto simp: in_classes_def split: if_splits option.splits)
qed

lemma re_match_sound:
  "re_match items s = Some (found, r) \<Longrightarrow> matched items found s r"
  "try_alts d alts items s = Some (found, r) \<Longrightarrow>
     \<exists>g found' s'. found = (d, g) # found' \<and> (\<exists>alt \<in> set alts. in_classes g alt)
        \<and> s = g @ s' \<and> matched items found' s' r"
proof (induction items s and d alts items s arbitrary: found r and found r
    rule: re_match_try_alts.induct)
  case (1 s)
  then show ?case by simp
next
  case (2 c items)
  then show ?case by simp
next
  case (3 c items x s)
  then show ?case by (simp split: if_splits)
next
  case (4 d items s)
  from 4(1) [of found r] 4(2) show ?case by (auto simp: field_def)
next
  case (5 d items s)
  then show ?case by simp
next
  case (6 d alt alts items s)
  show ?case
  proof (cases "match_seq alt s")
    case None
    with 6 show ?thesis by fastforce
  next
    case (Some p)
    obtain g r' where p: "p = (g, r')" by (cases p)
    note ms = match_seq_sound [OF Some [unfolded p]]
    show ?thesis
    proof (cases "re_match items r'")
      case None
      with 6(3) [OF Some [unfolded p]] 6(4) Some p show ?thesis
        by fastforce
    next
      case (Some q)
      obtain fnd rst where q: "q = (fnd, rst)" by (cases q)
      from 6(4) \<open>match_seq alt s = Some p\<close> p Some q have eq: "found = (d, g) # fnd" "r = rst"
        by simp_all
      from 6(2) [OF \<open>match_seq alt s = Some p\<close> [unfolded p] refl Some [unfolded q]]
      have "matched items fnd r' rst" .
      with ms eq show ?thesis by auto
    qed
  qed
qed

lemma digit_value:
  "c \<in> set digit \<Longrightarrow> 0 \<le> (of_char c :: int) - 48 \<and> (of_char c :: int) - 48 < 10 \<and> c \<noteq> CHR '':''"
  by (auto simp: digit_def)

lemma digit_value6:
  "c \<in> set ''012345'' \<Longrightarrow> c \<in> set digit \<and> (of_char c :: int) - 48 < 6"
  by (auto simp: digit_def)

lemma digit_value2:
  "c \<in> set ''01'' \<Longrightarrow> c \<in> set digit \<and> (of_char c :: int) - 48 < 2"
  by (auto simp: digit_def)

lemma digit_value4:
  "c \<in> set ''0123'' \<Longrightarrow> c \<in> set digit \<and> (of_char c :: int) - 48 < 4"
  by (auto simp: digit_def)

lemma in_classes_1: "in_classes g [c1] \<longleftrightarrow> (\<exists>a. g = [a] \<and> a \<in> set c1)"
  by (auto simp: in_classes_def list_all2_Cons2)

lemma in_classes_2:
  "in_classes g [c1, c2] \<longleftrightarrow> (\<exists>a b. g = [a, b] \<and> a \<in> set c1 \<and> b \<in> set c2)"
  by (auto simp: in_classes_def list_all2_Cons2)

lemma py_int_str_1: "py_int_str [a] = of_char a - 48"
  by (simp add: py_int_str_def)

lemma py_int_str_2: "py_int_str [a, b] = 10 * (of_char a - 48) + (of_char b - 48)"
  by (simp add: py_int_str_def)

lemma field_DM:
  assumes "field DM g"
  shows "set g \<subseteq> set digit \<and> 0 \<le> py_int_str g \<and> py_int_str g < 60"
proof -
  from assms consider a where "g = [a]" "a \<in> set digit"
    | a b where "g = [a, b]" "a \<in> set ''012345''" "b \<in> set digit"
    by (auto simp: field_def directive_alts_def in_classes_1 in_classes_2)
  then show ?thesis
  proof cases
    case 1
    with digit_value [of a] show ?thesis by (simp add: py_int_str_1)
  next
    case 2
    with digit_value [of a] digit_value6 [of a] digit_value [of b] show ?thesis
      by (simp add: py_int_str_2)
  qed
qed

lemma field_DH:
  assumes "field DH g"
  shows "set g \<subseteq> set digit \<and> 0 \<le> py_int_str g \<and> py_int_str g < 24"
proof -
  from assms consider a where "g = [a]" "a \<in> set digit"
    | a b where "g = [a, b]" "a \<in> set ''01''" "b \<in> set digit"
    | b where "g = [CHR ''2'', b]" "b \<in> set ''0123''"
    by (auto simp: field_def directive_alts_def in_classes_1 in_classes_2)
  then show ?thesis
  proof cases
    case 1
    with digit_value [of a] show ?thesis by (simp add: py_int_str_1)
  next
    case 2
    with digit_value [of a] digit_value2 [of a] digit_value [of b] show ?thesis
      by (simp add: py_int_str_2)
  next
    case 3
    with digit_value [of b] digit_value4 [of b] show ?thesis
      by (simp add: py_int_str_2 digit_def)
  qed
qed

lemma field_DS:
  assumes "field DS g"
  shows "set g \<subseteq> set digit \<and> 0 \<le> py_int_str g"
proof -
  from assms consider a where "g = [a]" "a \<in> set digit"
    | a b where "g = [a, b]" "a \<in> set ''012345''" "b \<in> set digit"
    | b where "g = [CHR ''6'', b]" "b \<in> set ''01''"
    by (auto simp: field_def directive_alts_def in_classes_1 in_classes_2)
  then show ?thesis
  proof cases
    case 1
    with digit_value [of a] show ?thesis by (simp add: py_int_str_1)
  next
    case 2
    with digit_value [of a] digit_value6 [of a] digit_value [of b] show ?thesis
      by (simp add: py_int_str_2)
  next
    case 3
    with digit_value [of b] digit_value2 [of b] show ?thesis
      by (simp add: py_int_str_2 digit_def)
  qed
qed

lemma split_on_no_sep: "c \<notin> set g \<Longrightarrow> split_on c g = [g]"
  by (induction g) auto

lemma split_on_append: "c \<notin> set g \<Longrightarrow> split_on c (g @ c # rest) = g # split_on c rest"
  by (induction g) auto

lemma colon_not_digit: "set g \<subseteq> set digit \<Longrightarrow> CHR '':'' \<notin> set g"
  by (auto simp: digit_def)

lemma int_div_mod_unique:
  fixes q r k :: int
  assumes "0 \<le> r" "r < k"
  shows "(q * k + r) div k = q" "(q * k + r) mod k = r"
  using assms by (simp_all add: div_pos_pos_trivial mod_pos_pos_trivial)

lemma format_hms:
  assumes "0 \<le> h" "h < 24" "0 \<le> m" "m < 60" "0 \<le> sec" "sec < 60"
  shows "format_seconds_to_hhmmss (h * 3600 + m * 60 + sec) =
     Inr (if h \<noteq> 0 then two_digits h @ '':'' @ two_digits m @ '':'' @ two_digits sec
          else two_digits m @ '':'' @ two_digits sec)"
proof -
  let ?n = "h * 3600 + m * 60 + sec"
  have r: "0 \<le> ?n" "?n < 86400" using assms by auto
  then have tod: "?n mod 86400 = ?n" by simp
  have e1: "?n = h * 3600 + (m * 60 + sec)" by simp
  have e2: "?n = (h * 60 + m) * 60 + sec" by simp
  have hh: "?n div 3600 = h"
    unfolding e1 using assms by (intro int_div_mod_unique) auto
  have ms: "?n mod 3600 = m * 60 + sec"
    unfolding e1 using assms by (intro int_div_mod_unique) auto
  have mm: "(m * 60 + sec) div 60 = m"
    using assms by (intro int_div_mod_unique) auto
  have ss: "?n mod 60 = sec"
    unfolding e2 using assms by (intro int_div_mod_unique) auto
  show ?thesis
    using r assms unfolding format_seconds_to_hhmmss_def Let_def tod hh ms mm ss
    by auto
qed

lemma strptime_error: "strptime s fmt = Inl e \<Longrightarrow> e = ValueError"
  by (auto simp: strptime_def Let_def split: option.splits if_splits prod.splits)

lemma strptime_HMS:
  assumes "strptime s fmt_HMS = Inr (h, m, sec)"
  shows "0 \<le> h \<and> h < 24 \<and> 0 \<le> m \<and> m < 60 \<and> 0 \<le> sec \<and> sec < 60
    \<and> (\<exists>g1 g2 g3. s = g1 @ CHR '':'' # g2 @ CHR '':'' # g3
          \<and> CHR '':'' \<notin> set g1 \<and> CHR '':'' \<notin> set g2 \<and> CHR '':'' \<notin> set g3
          \<and> py_int_str g1 = h \<and> py_int_str g2 = m \<and> py_int_str g3 = sec)"
proof -
  from assms obtain found where rm: "re_match fmt_HMS s = Some (found, [])"
    and v: "h = group_int found DH" "m = group_int found DM" "sec = group_int found DS"
    and s59: "\<not> 59 < sec"
    by (auto simp: strptime_def Let_def split: option.splits if_splits)
  from re_match_sound(1) [OF rm] obtain g1 g2 g3 where
    f: "found = [(DH, g1), (DM, g2), (DS, g3)]" and s: "s = g1 @ CHR '':'' # g2 @ CHR '':'' # g3"
    and fl: "field DH g1" "field DM g2" "field DS g3"
    by (auto simp: fmt_HMS_def)
  from f v have vals: "h = py_int_str g1" "m = py_int_str g2" "sec = py_int_str g3"
    by (simp_all add: group_int_def)
  from field_DH [OF fl(1)] field_DM [OF fl(2)] field_DS [OF fl(3)] vals s59
  have b: "0 \<le> h \<and> h < 24 \<and> 0 \<le> m \<and> m < 60 \<and> 0 \<le> sec \<and> sec < 60"
    by auto
  from field_DH [OF fl(1)] field_DM [OF fl(2)] field_DS [OF fl(3)]
  have c: "CHR '':'' \<notin> set g1" "CHR '':'' \<notin> set g2" "CHR '':'' \<notin> set g3"
    by (simp_all add: colon_not_digit)
  from b c s vals show ?thesis by blast
qed

lemma strptime_MS:
  assumes "strptime s fmt_MS = Inr (h, m, sec)"
  shows "h = 0 \<and> 0 \<le> m \<and> m < 60 \<and> 0 \<le> sec \<and> sec < 60
    \<and> (\<exists>g2 g3. s = g2 @ CHR '':'' # g3
          \<and> CHR '':'' \<notin> set g2 \<and> CHR '':'' \<notin> set g3
          \<and> py_int_str g2 = m \<and> py_int_str g3 = sec)"
proof -
  from assms obtain found where rm: "re_match fmt_MS s = Some (found, [])"
    and v: "h = group_int found DH" "m = group_int found DM" "sec = group_int found DS"
    and s59: "\<not> 59 < sec"
    by (auto simp: strptime_def Let_def split: option.splits if_splits)
  from re_match_sound(1) [OF rm] obtain g2 g3 where
    f: "found = [(DM, g2), (DS, g3)]" and s: "s = g2 @ CHR '':'' # g3"
    and fl: "field DM g2" "field DS g3"
    by (auto simp: fmt_MS_def)
  from f v have vals: "h = 0" "m = py_int_str g2" "sec = py_int_str g3"
    by (simp_all add: group_int_def)
  from field_DM [OF fl(1)] field_DS [OF fl(2)] vals s59
  have b: "h = 0 \<and> 0 \<le> m \<and> m < 60 \<and> 0 \<le> sec \<and> sec < 60"
    by auto
  from field_DM [OF fl(1)] field_DS [OF fl(2)]
  have c: "CHR '':'' \<notin> set g2" "CHR '':'' \<notin> set g3"
    by (simp_all add: colon_not_digit)
  from b c s vals show ?thesis by blast
qed

lemma canonical_HMS:
  assumes "CHR '':'' \<notin> set g1" "CHR '':'' \<notin> set g2" "CHR '':'' \<notin> set g3"
  shows "canonical (g1 @ CHR '':'' # g2 @ CHR '':'' # g3) =
     (if py_int_str g1 \<noteq> 0
      then two_digits (py_int_str g1) @ '':'' @ two_digits (py_int_str g2) @ '':'' @ two_digits (py_int_str g3)
      else two_digits (py_int_str g2) @ '':'' @ two_digits (py_int_str g3))"
  using assms by (simp add: canonical_def split_on_append split_on_no_sep)

lemma canonical_MS:
  assumes "CHR '':'' \<notin> set g2" "CHR '':'' \<notin> set g3"
  shows "canonical (g2 @ CHR '':'' # g3) =
     two_digits (py_int_str g2) @ '':'' @ two_digits (py_int_str g3)"
  using assms by (simp add: canonical_def split_on_append split_on_no_sep)

lemma valid_time_unfold:
  "valid_time s =
     (case strptime s fmt_HMS of
        Inr (h, m, sec) \<Rightarrow> Inr (h * 3600 + m * 60 + sec)
      | Inl e \<Rightarrow>
          (case strptime s fmt_MS of
             Inr (h, m, sec) \<Rightarrow> Inr (h * 3600 + m * 60 + sec)
           | Inl e' \<Rightarrow> Inl (InvalidTimeError s)))"
  by (auto simp: valid_time_def formats_def
      split: sum.splits error.splits dest: strptime_error)

lemma valid_time_format:
  assumes "valid_time s = Inr n"
  shows "format_seconds_to_hhmmss n = Inr (canonical s) \<and> 0 \<le> n \<and> n < 86400"
proof (cases "strptime s fmt_HMS")
  case (Inr t)
  obtain h m sec where t: "t = (h, m, sec)" by (cases t)
  from assms Inr t have n: "n = h * 3600 + m * 60 + sec"
    by (simp add: valid_time_unfold)
  from strptime_HMS [OF Inr [unfolded t]] obtain g1 g2 g3 where
    b: "0 \<le> h" "h < 24" "0 \<le> m" "m < 60" "0 \<le> sec" "sec < 60"
    and s: "s = g1 @ CHR '':'' # g2 @ CHR '':'' # g3"
    and c: "CHR '':'' \<notin> set g1" "CHR '':'' \<notin> set g2" "CHR '':'' \<notin> set g3"
    and v: "py_int_str g1 = h" "py_int_str g2 = m" "py_int_str g3 = sec"
    by blast
  have "format_seconds_to_hhmmss n = Inr (canonical s)"
    unfolding n s format_hms [OF b] canonical_HMS [OF c] v ..
  with b n show ?thesis by auto
next
  case (Inl e)
  show ?thesis
  proof (cases "strptime s fmt_MS")
    case (Inr t)
    obtain h m sec where t: "t = (h, m, sec)" by (cases t)
    from assms Inl Inr t have n: "n = h * 3600 + m * 60 + sec"
      by (simp add: valid_time_unfold)
    from strptime_MS [OF Inr [unfolded t]] obtain g2 g3 where
      h0: "h = 0" and b: "0 \<le> m" "m < 60" "0 \<le> sec" "sec < 60"
      and s: "s = g2 @ CHR '':'' # g3"
      and c: "CHR '':'' \<notin> set g2" "CHR '':'' \<notin> set g3"
      and v: "py_int_str g2 = m" "py_int_str g3 = sec"
      by blast
    have "format_seconds_to_hhmmss n = Inr (canonical s)"
      unfolding n s h0 using format_hms [of 0 m sec] b canonical_MS [OF c] v by simp
    with b n h0 show ?thesis by auto
  next
    case Inl2: (Inl e')
    with Inl assms show ?thesis by (simp add: valid_time_unfold)
  qed
qed

text \<open>
  C5. \<^verbatim>\<open>valid_time\<close> tries \<open>HH:MM:SS\<close> first and then \<open>MM:SS\<close>; the first format that
  parses gives \<open>hours * 3600 + minutes * 60 + seconds\<close> (an \<open>MM:SS\<close> string has hour 0);
  when neither parses it raises \<^verbatim>\<open>InvalidTimeError\<close>. For every string that it accepts,
  formatting the result gives the canonical rendering of the string. \<open>01:02:03\<close> gives 3723
  and back \<open>01:02:03\<close>; \<open>02:03\<close> gives 123 and back \<open>02:03\<close>.
\<close>

theorem valid_time_roundtrip:
  "(\<forall>h m sec. strptime s fmt_HMS = Inr (h, m, sec) \<longrightarrow>
       valid_time s = Inr (h * 3600 + m * 60 + sec))
   \<and> (\<forall>e h m sec. strptime s fmt_HMS = Inl e \<and> strptime s fmt_MS = Inr (h, m, sec) \<longrightarrow>
       h = 0 \<and> valid_time s = Inr (m * 60 + sec))
   \<and> (\<forall>e e'. strptime s fmt_HMS = Inl e \<and> strptime s fmt_MS = Inl e' \<longrightarrow>
       valid_time s = Inl (InvalidTimeError s))
   \<and> (\<forall>n. valid_time s = Inr n \<longrightarrow> format_seconds_to_hhmmss n = Inr (canonical s))
   \<and> valid_time ''01:02:03'' = Inr 3723
   \<and> format_seconds_to_hhmmss 3723 = Inr ''01:02:03''
   \<and> valid_time ''02:03'' = Inr 123
   \<and> format_seconds_to_hhmmss 123 = Inr ''02:03''"
proof -
  have 1: "\<forall>h m sec. strptime s fmt_HMS = Inr (h, m, sec) \<longrightarrow>
       valid_time s = Inr (h * 3600 + m * 60 + sec)"
    by (simp add: valid_time_unfold)
  have 2: "\<forall>e h m sec. strptime s fmt_HMS = Inl e \<and> strptime s fmt_MS = Inr (h, m, sec) \<longrightarrow>
       h = 0 \<and> valid_time s = Inr (m * 60 + sec)"
    using strptime_MS [of s] by (auto simp: valid_time_unfold)
  have 3: "\<forall>e e'. strptime s fmt_HMS = Inl e \<and> strptime s fmt_MS = Inl e' \<longrightarrow>
       valid_time s = Inl (InvalidTimeError s)"
    by (auto simp: valid_time_unfold)
  have 4: "\<forall>n. valid_time s = Inr n \<longrightarrow> format_seconds_to_hhmmss n = Inr (canonical s)"
    using valid_time_format [of s] by blast
  have 5: "valid_time ''01:02:03'' = Inr 3723"
    by (simp add: valid_time_def formats_def fmt_HMS_def fmt_MS_def strptime_def
          directive_alts_def digit_def group_int_def py_int_str_def)
  have 6: "format_seconds_to_hhmmss 3723 = Inr ''01:02:03''"
    by (simp add: format_seconds_to_hhmmss_def two_digits_def Let_def char_of_def)
  have 7: "valid_time ''02:03'' = Inr 123"
    by (simp add: valid_time_def formats_def fmt_HMS_def fmt_MS_def strptime_def
          directive_alts_def digit_def group_int_def py_int_str_def)
  have 8: "format_seconds_to_hhmmss 123 = Inr ''02:03''"
    by (simp add: format_seconds_to_hhmmss_def two_digits_def Let_def char_of_def)
  from 1 2 3 4 5 6 7 8 show ?thesis by blast
qed

lemma time_string_examples:
  "strptime ''01:02:03'' fmt_HMS = Inr (1, 2, 3)"
  "strptime ''02:03'' fmt_HMS = Inl ValueError"
  "strptime ''02:03'' fmt_MS = Inr (0, 2, 3)"
  "strptime ''1:2:3'' fmt_HMS = Inr (1, 2, 3)"
  "strptime ''24:00'' fmt_HMS = Inl ValueError"
  "strptime ''24:00'' fmt_MS = Inr (0, 24, 0)"
  "strptime ''23:59:60'' fmt_HMS = Inl ValueError"
  "strptime ''23:59:60'' fmt_MS = Inl ValueError"
  "strptime ''7:75'' fmt_HMS = Inl ValueError"
  "strptime ''7:75'' fmt_MS = Inl ValueError"
  "canonical ''01:02:03'' = ''01:02:03''"
  "canonical ''1:2:3'' = ''01:02:03''"
  "canonical ''02:03'' = ''02:03''"
  "canonical ''00:02:03'' = ''02:03''"
  by (simp_all add: fmt_HMS_def fmt_MS_def strptime_def directive_alts_def digit_def
        group_int_def py_int_str_def canonical_def two_digits_def char_of_def)

text \<open>
  Each hypothesis at a string: \<open>01:02:03\<close> parses as \<open>HH:MM:SS\<close>, \<open>02:03\<close> only as
  \<open>MM:SS\<close>, \<open>23:59:60\<close> as neither, and \<open>1:2:3\<close> is accepted and rendered canonically.
\<close>

theorem valid_time_roundtrip_witness:
  "valid_time ''01:02:03'' = Inr 3723
   \<and> valid_time ''02:03'' = Inr 123
   \<and> valid_time ''23:59:60'' = Inl (InvalidTimeError ''23:59:60'')
   \<and> valid_time ''1:2:3'' = Inr 3723
   \<and> format_seconds_to_hhmmss 3723 = Inr (canonical ''1:2:3'')
   \<and> canonical ''1:2:3'' = ''01:02:03''"
proof -
  have a: "valid_time ''01:02:03'' = Inr (1 * 3600 + 2 * 60 + 3)"
    using valid_time_roundtrip [of "''01:02:03''"] time_string_examples(1) by blast
  have b: "valid_time ''02:03'' = Inr (2 * 60 + 3)"
    using valid_time_roundtrip [of "''02:03''"] time_string_examples(2,3) by blast
  have c: "valid_time ''23:59:60'' = Inl (InvalidTimeError ''23:59:60'')"
    using valid_time_roundtrip [of "''23:59:60''"] time_string_examples(7,8) by blast
  have d: "valid_time ''1:2:3'' = Inr (1 * 3600 + 2 * 60 + 3)"
    using valid_time_roundtrip [of "''1:2:3''"] time_string_examples(4) by blast
  then have e: "format_seconds_to_hhmmss (1 * 3600 + 2 * 60 + 3) = Inr (canonical ''1:2:3'')"
    using valid_time_roundtrip [of "''1:2:3''"] by blast
  from a b c d e time_string_examples(12) show ?thesis by simp
qed

text \<open>
  Every rendering is accepted and parses back to the seconds it was made from: the
  characters of a two-digit rendering lie in the classes of the first alternative that
  the directive tries for them, and an \<open>MM:SS\<close> rendering, having one colon, does not
  parse as \<open>HH:MM:SS\<close>.
\<close>

lemma digit_char:
  fixes d :: int
  assumes "0 \<le> d" "d < 10"
  shows "char_of (48 + d) \<in> set digit" "of_char (char_of (48 + d)) - 48 = d"
proof -
  from assms consider "d = 0" | "d = 1" | "d = 2" | "d = 3" | "d = 4" | "d = 5" | "d = 6"
    | "d = 7" | "d = 8" | "d = 9"
    by atomize_elim presburger
  then show "char_of (48 + d) \<in> set digit"
    by cases (simp_all add: digit_def char_of_def)
  from assms show "of_char (char_of (48 + d)) - 48 = d"
    by (simp add: of_char_of)
qed

lemma digit_char_classes:
  fixes d :: int
  shows "0 \<le> d \<Longrightarrow> d < 6 \<Longrightarrow> char_of (48 + d) \<in> set ''012345''"
    and "0 \<le> d \<Longrightarrow> d < 2 \<Longrightarrow> char_of (48 + d) \<in> set ''01''"
    and "0 \<le> d \<Longrightarrow> d < 4 \<Longrightarrow> char_of (48 + d) \<in> set ''0123''"
    and "char_of (48 + 2 :: int) = CHR ''2''"
proof -
  show "0 \<le> d \<Longrightarrow> d < 6 \<Longrightarrow> char_of (48 + d) \<in> set ''012345''"
  proof -
    assume "0 \<le> d" "d < 6"
    then consider "d = 0" | "d = 1" | "d = 2" | "d = 3" | "d = 4" | "d = 5"
      by atomize_elim presburger
    then show ?thesis by cases (simp_all add: char_of_def)
  qed
  show "0 \<le> d \<Longrightarrow> d < 2 \<Longrightarrow> char_of (48 + d) \<in> set ''01''"
  proof -
    assume "0 \<le> d" "d < 2"
    then consider "d = 0" | "d = 1"
      by atomize_elim presburger
    then show ?thesis by cases (simp_all add: char_of_def)
  qed
  show "0 \<le> d \<Longrightarrow> d < 4 \<Longrightarrow> char_of (48 + d) \<in> set ''0123''"
  proof -
    assume "0 \<le> d" "d < 4"
    then consider "d = 0" | "d = 1" | "d = 2" | "d = 3"
      by atomize_elim presburger
    then show ?thesis by cases (simp_all add: char_of_def)
  qed
  show "char_of (48 + 2 :: int) = CHR ''2''"
    by (simp add: char_of_def)
qed

lemma two_digits_value:
  assumes "0 \<le> n" "n < 100"
  shows "py_int_str (two_digits n) = n"
proof -
  have "0 \<le> n div 10" "n div 10 < 10" "0 \<le> n mod 10" "n mod 10 < 10"
    using assms by auto
  then show ?thesis
    by (simp add: two_digits_def py_int_str_2 digit_char(2))
qed

lemma try_alts_DM:
  assumes "a \<in> set ''012345''" "b \<in> set digit"
  shows "try_alts DM (directive_alts DM) (Literal CHR '':'' # items) (a # b # CHR '':'' # rest) =
     (case re_match items rest of
        None \<Rightarrow> None
      | Some (found, r) \<Rightarrow> Some ((DM, [a, b]) # found, r))"
proof -
  from assms digit_value6 [of a] digit_value [of b]
  have f: "a \<in> set digit" "b \<noteq> CHR '':''"
    by auto
  have 1: "match_seq [''012345'', digit] (a # b # CHR '':'' # rest)
      = Some ([a, b], CHR '':'' # rest)"
    using assms by (simp del: set_simps)
  have 2: "match_seq [digit] (a # b # CHR '':'' # rest) = Some ([a], b # CHR '':'' # rest)"
    using f by (simp del: set_simps)
  show ?thesis
    unfolding directive_alts_def directive.case try_alts.simps 1 2
    using f by (simp split: option.splits)
qed

lemma try_alts_DH:
  assumes "(a \<in> set ''01'' \<and> b \<in> set digit) \<or> (a = CHR ''2'' \<and> b \<in> set ''0123'')"
  shows "try_alts DH (directive_alts DH) (Literal CHR '':'' # items) (a # b # CHR '':'' # rest) =
     (case re_match items rest of
        None \<Rightarrow> None
      | Some (found, r) \<Rightarrow> Some ((DH, [a, b]) # found, r))"
  using assms
proof
  assume h: "a \<in> set ''01'' \<and> b \<in> set digit"
  with digit_value2 [of a] digit_value [of b]
  have f: "a \<in> set digit" "b \<noteq> CHR '':''" "a \<noteq> CHR ''2''"
    by auto
  have 1: "match_seq [''2'', ''0123''] (a # b # CHR '':'' # rest) = None"
    using f by simp
  have 2: "match_seq [''01'', digit] (a # b # CHR '':'' # rest) = Some ([a, b], CHR '':'' # rest)"
    using h by (simp del: set_simps)
  have 3: "match_seq [digit] (a # b # CHR '':'' # rest) = Some ([a], b # CHR '':'' # rest)"
    using f by (simp del: set_simps)
  show ?thesis
    unfolding directive_alts_def directive.case try_alts.simps 1 2 3
    using f by (simp split: option.splits)
next
  assume h: "a = CHR ''2'' \<and> b \<in> set ''0123''"
  with digit_value4 [of b] digit_value [of b]
  have f: "b \<in> set digit" "b \<noteq> CHR '':''"
    by auto
  have 1: "match_seq [''2'', ''0123''] (a # b # CHR '':'' # rest) = Some ([a, b], CHR '':'' # rest)"
    using h by auto
  have 2: "match_seq [''01'', digit] (a # b # CHR '':'' # rest) = None"
    using h by simp
  have 3: "match_seq [digit] (a # b # CHR '':'' # rest) = Some ([a], b # CHR '':'' # rest)"
    using h by (simp add: digit_def)
  show ?thesis
    unfolding directive_alts_def directive.case try_alts.simps 1 2 3
    using f by (simp split: option.splits)
qed

lemma try_alts_DS:
  assumes "a \<in> set ''012345''" "b \<in> set digit"
  shows "try_alts DS (directive_alts DS) [] [a, b] = Some ([(DS, [a, b])], [])"
proof -
  from assms have f: "a \<noteq> CHR ''6''"
    by auto
  have 1: "match_seq [''6'', ''01''] [a, b] = None"
    using f by simp
  have 2: "match_seq [''012345'', digit] [a, b] = Some ([a, b], [])"
    using assms by (simp del: set_simps)
  show ?thesis
    unfolding directive_alts_def directive.case try_alts.simps 1 2
    by simp
qed

lemma two_digits_classes:
  assumes "0 \<le> n"
  shows "n < 60 \<Longrightarrow> \<exists>a b. two_digits n = [a, b] \<and> a \<in> set ''012345'' \<and> b \<in> set digit"
    and "n < 24 \<Longrightarrow> \<exists>a b. two_digits n = [a, b]
          \<and> ((a \<in> set ''01'' \<and> b \<in> set digit) \<or> (a = CHR ''2'' \<and> b \<in> set ''0123''))"
proof -
  have m: "0 \<le> n mod 10" "n mod 10 < 10"
    by simp_all
  show "\<exists>a b. two_digits n = [a, b] \<and> a \<in> set ''012345'' \<and> b \<in> set digit" if "n < 60"
  proof -
    from assms that have "0 \<le> n div 10" "n div 10 < 6"
      by auto
    with m have "char_of (48 + n div 10) \<in> set ''012345'' \<and> char_of (48 + n mod 10) \<in> set digit"
      by (intro conjI digit_char_classes(1) digit_char(1))
    then show ?thesis
      unfolding two_digits_def by blast
  qed
  show "\<exists>a b. two_digits n = [a, b]
          \<and> ((a \<in> set ''01'' \<and> b \<in> set digit) \<or> (a = CHR ''2'' \<and> b \<in> set ''0123''))"
    if "n < 24"
  proof (cases "n < 20")
    case True
    with assms have "0 \<le> n div 10" "n div 10 < 2"
      by auto
    with m have "char_of (48 + n div 10) \<in> set ''01'' \<and> char_of (48 + n mod 10) \<in> set digit"
      by (intro conjI digit_char_classes(2) digit_char(1))
    then show ?thesis
      unfolding two_digits_def by blast
  next
    case False
    with that have d: "n div 10 = 2" "0 \<le> n mod 10" "n mod 10 < 4"
      by presburger+
    then have "char_of (48 + n div 10) = CHR ''2'' \<and> char_of (48 + n mod 10) \<in> set ''0123''"
      using digit_char_classes(3) [of "n mod 10"] digit_char_classes(4) by simp
    then show ?thesis
      unfolding two_digits_def by blast
  qed
qed

lemma strptime_accepts_HMS:
  assumes "0 \<le> h" "h < 24" "0 \<le> m" "m < 60" "0 \<le> sec" "sec < 60"
  shows "strptime (two_digits h @ '':'' @ two_digits m @ '':'' @ two_digits sec) fmt_HMS
     = Inr (h, m, sec)"
proof -
  from two_digits_classes(2) [OF assms(1,2)] obtain h1 h2 where
    h: "two_digits h = [h1, h2]"
      "(h1 \<in> set ''01'' \<and> h2 \<in> set digit) \<or> (h1 = CHR ''2'' \<and> h2 \<in> set ''0123'')"
    by blast
  from two_digits_classes(1) [OF assms(3,4)] obtain m1 m2 where
    m: "two_digits m = [m1, m2]" "m1 \<in> set ''012345''" "m2 \<in> set digit"
    by blast
  from two_digits_classes(1) [OF assms(5,6)] obtain s1 s2 where
    s: "two_digits sec = [s1, s2]" "s1 \<in> set ''012345''" "s2 \<in> set digit"
    by blast
  have v: "py_int_str [h1, h2] = h" "py_int_str [m1, m2] = m" "py_int_str [s1, s2] = sec"
    using two_digits_value [of h] two_digits_value [of m] two_digits_value [of sec] assms h m s
    by simp_all
  have "re_match fmt_HMS (h1 # h2 # CHR '':'' # m1 # m2 # CHR '':'' # [s1, s2])
      = Some ([(DH, [h1, h2]), (DM, [m1, m2]), (DS, [s1, s2])], [])"
    unfolding fmt_HMS_def
    by (simp add: try_alts_DH [OF h(2)] try_alts_DM [OF m(2,3)] try_alts_DS [OF s(2,3)])
  then show ?thesis
    using v assms by (simp add: h m s strptime_def group_int_def Let_def)
qed

lemma strptime_accepts_MS:
  assumes "0 \<le> m" "m < 60" "0 \<le> sec" "sec < 60"
  shows "strptime (two_digits m @ '':'' @ two_digits sec) fmt_MS = Inr (0, m, sec)"
    and "\<exists>e. strptime (two_digits m @ '':'' @ two_digits sec) fmt_HMS = Inl e"
proof -
  from two_digits_classes(1) [OF assms(1,2)] obtain m1 m2 where
    m: "two_digits m = [m1, m2]" "m1 \<in> set ''012345''" "m2 \<in> set digit"
    by blast
  from two_digits_classes(1) [OF assms(3,4)] obtain s1 s2 where
    s: "two_digits sec = [s1, s2]" "s1 \<in> set ''012345''" "s2 \<in> set digit"
    by blast
  have v: "py_int_str [m1, m2] = m" "py_int_str [s1, s2] = sec"
    using two_digits_value [of m] two_digits_value [of sec] assms m s
    by simp_all
  have "re_match fmt_MS (m1 # m2 # CHR '':'' # [s1, s2])
      = Some ([(DM, [m1, m2]), (DS, [s1, s2])], [])"
    unfolding fmt_MS_def
    by (simp add: try_alts_DM [OF m(2,3)] try_alts_DS [OF s(2,3)])
  then show "strptime (two_digits m @ '':'' @ two_digits sec) fmt_MS = Inr (0, m, sec)"
    using v assms by (simp add: m s strptime_def group_int_def Let_def)
  have c: "CHR '':'' \<notin> set [m1, m2]" "CHR '':'' \<notin> set [s1, s2]"
    using m s digit_value6 [of m1] digit_value [of m2] digit_value6 [of s1] digit_value [of s2]
      digit_value [of m1] digit_value [of s1]
    by auto
  show "\<exists>e. strptime (two_digits m @ '':'' @ two_digits sec) fmt_HMS = Inl e"
  proof (cases "strptime (two_digits m @ '':'' @ two_digits sec) fmt_HMS")
    case (Inl e)
    then show ?thesis by blast
  next
    case (Inr t)
    obtain h' m' s' where t: "t = (h', m', s')" by (cases t)
    from strptime_HMS [OF Inr [unfolded t]] obtain g1 g2 g3 where
      e: "two_digits m @ '':'' @ two_digits sec = g1 @ CHR '':'' # g2 @ CHR '':'' # g3"
      and g: "CHR '':'' \<notin> set g1" "CHR '':'' \<notin> set g2" "CHR '':'' \<notin> set g3"
      by blast
    have "split_on CHR '':'' (g1 @ CHR '':'' # g2 @ CHR '':'' # g3) = [g1, g2, g3]"
      using g by (simp add: split_on_append split_on_no_sep)
    moreover have "split_on CHR '':'' (two_digits m @ '':'' @ two_digits sec)
        = [[m1, m2], [s1, s2]]"
      using split_on_append [OF c(1), of "[s1, s2]"] split_on_no_sep [OF c(2)] m s
      by simp
    ultimately show ?thesis
      using e by simp
  qed
qed

lemma valid_time_format_seconds:
  assumes "0 \<le> n" "n < 86400"
  shows "\<exists>t. format_seconds_to_hhmmss n = Inr t \<and> valid_time t = Inr n"
proof -
  define h where "h = n div 3600"
  define m where "m = n mod 3600 div 60"
  define sec where "sec = n mod 60"
  have b: "0 \<le> h" "h < 24" "0 \<le> m" "m < 60" "0 \<le> sec" "sec < 60"
  proof -
    show "0 \<le> h" using assms unfolding h_def by simp
    show "h < 24" using assms unfolding h_def by linarith
    show "0 \<le> m" unfolding m_def by (simp add: pos_imp_zdiv_nonneg_iff)
    show "m < 60" unfolding m_def by simp
    show "0 \<le> sec" unfolding sec_def by simp
    show "sec < 60" unfolding sec_def by simp
  qed
  have n: "n = h * 3600 + m * 60 + sec"
  proof -
    have "n = n div 3600 * 3600 + n mod 3600" by simp
    moreover have "n mod 3600 = n mod 3600 div 60 * 60 + n mod 3600 mod 60" by simp
    moreover have "n mod 3600 mod 60 = n mod 60"
      by (simp add: mod_mod_cancel)
    ultimately show ?thesis unfolding h_def m_def sec_def by linarith
  qed
  show ?thesis
  proof (cases "h = 0")
    case True
    from strptime_accepts_MS [OF b(3-6)] obtain e where
      "strptime (two_digits m @ '':'' @ two_digits sec) fmt_MS = Inr (0, m, sec)"
      "strptime (two_digits m @ '':'' @ two_digits sec) fmt_HMS = Inl e"
      by blast
    then have "valid_time (two_digits m @ '':'' @ two_digits sec) = Inr n"
      using True n by (simp add: valid_time_unfold)
    moreover have "format_seconds_to_hhmmss n = Inr (two_digits m @ '':'' @ two_digits sec)"
      unfolding n using format_hms [OF b] True by simp
    ultimately show ?thesis by blast
  next
    case False
    from strptime_accepts_HMS [OF b]
    have "valid_time (two_digits h @ '':'' @ two_digits m @ '':'' @ two_digits sec) = Inr n"
      using n by (simp add: valid_time_unfold)
    moreover have "format_seconds_to_hhmmss n
        = Inr (two_digits h @ '':'' @ two_digits m @ '':'' @ two_digits sec)"
      unfolding n using format_hms [OF b] False by simp
    ultimately show ?thesis by blast
  qed
qed

text \<open>
  C10 (as the code has it). For every seconds value from 0 up to, but not including,
  315537897600 (where \<^verbatim>\<open>datetime\<close> arithmetic leaves the year 9999), the rendering is
  that of the value modulo 86400, a time of day: 90123 renders as \<open>01:02:03\<close> and 86400 as
  \<open>00:00\<close>.
\<close>

theorem format_seconds_to_hhmmss_wraps:
  assumes "0 \<le> seconds" "seconds < 315537897600"
  shows "format_seconds_to_hhmmss seconds = format_seconds_to_hhmmss (seconds mod 86400)
    \<and> (\<exists>t. format_seconds_to_hhmmss seconds = Inr t)
    \<and> format_seconds_to_hhmmss 90123 = Inr ''01:02:03''
    \<and> format_seconds_to_hhmmss 86400 = Inr ''00:00''"
proof -
  have b: "0 \<le> seconds mod 86400" "seconds mod 86400 < 86400"
    by simp_all
  then have c: "\<not> (seconds mod 86400 < 0 \<or> 315537897600 \<le> seconds mod 86400)"
    by linarith
  have 1: "format_seconds_to_hhmmss seconds = format_seconds_to_hhmmss (seconds mod 86400)"
    using assms c unfolding format_seconds_to_hhmmss_def by (simp add: Let_def)
  have 2: "\<exists>t. format_seconds_to_hhmmss seconds = Inr t"
    using assms unfolding format_seconds_to_hhmmss_def by (simp add: Let_def)
  have 3: "format_seconds_to_hhmmss 90123 = Inr ''01:02:03''"
    by (simp add: format_seconds_to_hhmmss_def two_digits_def Let_def char_of_def)
  have 4: "format_seconds_to_hhmmss 86400 = Inr ''00:00''"
    by (simp add: format_seconds_to_hhmmss_def two_digits_def Let_def char_of_def)
  from 1 2 3 4 show ?thesis by blast
qed

theorem format_seconds_to_hhmmss_wraps_witness:
  "format_seconds_to_hhmmss 90123 = format_seconds_to_hhmmss (90123 mod 86400)
   \<and> format_seconds_to_hhmmss 90123 = Inr ''01:02:03''"
proof -
  have h: "(0::int) \<le> 90123" "(90123::int) < 315537897600"
    by simp_all
  from format_seconds_to_hhmmss_wraps [OF h] show ?thesis
    by blast
qed

text \<open>
  At 315537897600 seconds the addition to \<^verbatim>\<open>datetime.min\<close> raises \<^verbatim>\<open>OverflowError\<close>,
  while the value modulo 86400, which is 0, renders as \<open>00:00\<close>.
\<close>

theorem format_seconds_to_hhmmss_overflow:
  "format_seconds_to_hhmmss 315537897600 = Inl OverflowError
   \<and> format_seconds_to_hhmmss (315537897600 mod 86400) = Inr ''00:00''"
  by (simp add: format_seconds_to_hhmmss_def two_digits_def Let_def char_of_def)

subsection \<open>Renaming\<close>

















lemmas example_eval =
  example_tracked_def example_world_def suffix_def with_name_def attempt_rename_def
  rename_def unlink_def try_unlink_def char_of_def bit_Suc_0_iff Let_def str_nat.simps


lemma rename_example_files:
  "files (snd (rename_files_with_vrn example_tracked ''AB12CDE'' example_world)) =
     {Path ''/elsewhere'' ''keep.jpg'', Path ''/videos'' ''AB12CDE.mp4'',
      Path ''/videos'' ''AB12CDE_frame_1.jpg'', Path ''/videos'' ''AB12CDE_frame_2.jpg''}"
  by (auto simp: rename_files_with_vrn_def example_eval)



subsection \<open>Cleanup\<close>

lemma try_unlink_files:
  "files (try_unlink p w) = (if p \<in> protected w then files w else files w - {p})"
  "protected (try_unlink p w) = protected w"
  "stdin (try_unlink p w) = stdin w"
  by (auto simp: try_unlink_def unlink_def)

lemma try_unlink_log:
  "p \<in> files w \<Longrightarrow> attempted (log (try_unlink p w)) = insert p (attempted (log w))"
  by (auto simp: try_unlink_def unlink_def attempted_def)

lemma cleanup_step:
  "cleanup d (x # xs) pu w = (Some EOFError, w)
   \<or> (\<exists>w1. cleanup d (x # xs) pu w = cleanup d xs pu w1
         \<and> files w1 \<subseteq> files w \<and> files w - files w1 \<subseteq> {p. p = x \<and> parent p = d})"
proof (cases "x \<notin> files w \<or> parent x \<noteq> d")
  case True
  then have "cleanup d (x # xs) pu w = cleanup d xs pu w" by auto
  then show ?thesis by blast
next
  case False
  show ?thesis
  proof (cases pu)
    case pu: True
    show ?thesis
    proof (cases "stdin w")
      case Nil
      with False pu show ?thesis by simp
    next
      case (Cons line lines)
      let ?w0 = "w\<lparr>stdin := lines\<rparr>"
      show ?thesis
      proof (cases "lower (strip line) \<notin> set ['''', ''y'', ''yes'']")
        case True
        with False pu Cons have "cleanup d (x # xs) pu w = cleanup d xs pu ?w0"
          by (simp add: Let_def)
        moreover have "files ?w0 = files w" by simp
        ultimately show ?thesis by blast
      next
        case no: False
        with False pu Cons
        have "cleanup d (x # xs) pu w = cleanup d xs pu (try_unlink x ?w0)"
          by (auto simp: Let_def)
        moreover have "files (try_unlink x ?w0) \<subseteq> files w"
          "files w - files (try_unlink x ?w0) \<subseteq> {p. p = x \<and> parent p = d}"
          using False by (auto simp: try_unlink_files)
        ultimately show ?thesis by blast
      qed
    qed
  next
    case npu: False
    with False have "cleanup d (x # xs) pu w = cleanup d xs pu (try_unlink x w)"
      by simp
    moreover have "files (try_unlink x w) \<subseteq> files w"
      "files w - files (try_unlink x w) \<subseteq> {p. p = x \<and> parent p = d}"
      using False by (auto simp: try_unlink_files)
    ultimately show ?thesis by blast
  qed
qed

lemma cleanup_scope:
  "p \<in> files w \<Longrightarrow> p \<notin> files (snd (cleanup d xs pu w)) \<Longrightarrow> p \<in> set xs \<and> parent p = d"
proof (induction xs arbitrary: w)
  case Nil
  then show ?case by simp
next
  case (Cons x xs)
  from cleanup_step [of d x xs pu w] show ?case
  proof
    assume "cleanup d (x # xs) pu w = (Some EOFError, w)"
    with Cons.prems show ?thesis by simp
  next
    assume "\<exists>w1. cleanup d (x # xs) pu w = cleanup d xs pu w1
         \<and> files w1 \<subseteq> files w \<and> files w - files w1 \<subseteq> {p. p = x \<and> parent p = d}"
    then obtain w1 where e: "cleanup d (x # xs) pu w = cleanup d xs pu w1"
      and s: "files w - files w1 \<subseteq> {p. p = x \<and> parent p = d}"
      by blast
    show ?thesis
    proof (cases "p \<in> files w1")
      case True
      from Cons.IH [OF True] Cons.prems(2) e show ?thesis by simp
    next
      case False
      with Cons.prems(1) s show ?thesis by auto
    qed
  qed
qed

lemma cleanup_noninteractive:
  "fst (cleanup d xs False w) = None
   \<and> files (snd (cleanup d xs False w)) =
       files w - {p \<in> set xs. parent p = d \<and> p \<notin> protected w}
   \<and> attempted (log (snd (cleanup d xs False w))) =
       attempted (log w) \<union> {p \<in> set xs. p \<in> files w \<and> parent p = d}"
proof (induction xs arbitrary: w)
  case Nil
  then show ?case by simp
next
  case (Cons x xs)
  show ?case
  proof (cases "x \<notin> files w \<or> parent x \<noteq> d")
    case True
    with Cons [of w] show ?thesis by auto
  next
    case False
    with Cons [of "try_unlink x w"] show ?thesis
      by (auto simp: try_unlink_files try_unlink_log)
  qed
qed

lemma confirms_empty: "lower (strip []) \<in> set ['''', ''y'', ''yes'']"
  by (simp add: lower_def strip_def)

lemma cleanup_interactive_default:
  assumes "stdin w = replicate n []" "length xs \<le> n"
    and "files v = files w" "protected v = protected w" "log v = log w"
  shows "fst (cleanup d xs True w) = None
    \<and> files (snd (cleanup d xs True w)) = files (snd (cleanup d xs False v))
    \<and> log (snd (cleanup d xs True w)) = log (snd (cleanup d xs False v))"
  using assms
proof (induction xs arbitrary: w v n)
  case Nil
  then show ?case by simp
next
  case (Cons x xs)
  show ?case
  proof (cases "x \<notin> files w \<or> parent x \<noteq> d")
    case True
    with Cons.IH [of w n v] Cons.prems show ?thesis by auto
  next
    case False
    from Cons.prems obtain m where n: "n = Suc m" by (cases n) auto
    let ?w1 = "try_unlink x (w\<lparr>stdin := replicate m []\<rparr>)"
    let ?v1 = "try_unlink x v"
    have 1: "stdin ?w1 = replicate m []" by (simp add: try_unlink_files)
    have 2: "files ?v1 = files ?w1" "protected ?v1 = protected ?w1"
      using Cons.prems by (simp_all add: try_unlink_files)
    have 3: "log ?v1 = log ?w1"
      using Cons.prems by (simp add: try_unlink_def unlink_def)
    from Cons.prems n have 4: "length xs \<le> m" by simp
    from Cons.IH [OF 1 4 2 3] False Cons.prems n show ?thesis
      by (simp add: confirms_empty lower_def strip_def)
  qed
qed

text \<open>
  C9. Whatever the flag and the answers, a file that exists before \<^verbatim>\<open>cleanup\<close> and is gone
  after it is a tracked file whose parent directory is the scope directory. Without
  prompting no error escapes, every tracked file that exists in the scope directory gets
  a deletion attempt, and exactly those of them that the operating system lets go are
  deleted. With prompting the empty answer is affirmative: when every answer is empty
  the outcome is that of the run without prompting.
\<close>

theorem cleanup_scoped:
  "(\<forall>p. p \<in> files w \<and> p \<notin> files (snd (cleanup directory tracked prompt_user w)) \<longrightarrow>
        p \<in> set tracked \<and> parent p = directory)
   \<and> fst (cleanup directory tracked False w) = None
   \<and> files (snd (cleanup directory tracked False w)) =
       files w - {p \<in> set tracked. parent p = directory \<and> p \<notin> protected w}
   \<and> attempted (log (snd (cleanup directory tracked False w))) =
       attempted (log w) \<union> {p \<in> set tracked. p \<in> files w \<and> parent p = directory}
   \<and> lower (strip []) \<in> set ['''', ''y'', ''yes'']
   \<and> (stdin w = replicate n [] \<and> length tracked \<le> n \<longrightarrow>
        fst (cleanup directory tracked True w) = None
        \<and> files (snd (cleanup directory tracked True w)) =
            files (snd (cleanup directory tracked False w))
        \<and> log (snd (cleanup directory tracked True w)) =
            log (snd (cleanup directory tracked False w)))"
proof -
  have 1: "\<forall>p. p \<in> files w \<and> p \<notin> files (snd (cleanup directory tracked prompt_user w)) \<longrightarrow>
        p \<in> set tracked \<and> parent p = directory"
    using cleanup_scope [of _ w directory tracked prompt_user] by blast
  note 2 = cleanup_noninteractive [of directory tracked w]
  have 3: "stdin w = replicate n [] \<and> length tracked \<le> n \<longrightarrow>
        fst (cleanup directory tracked True w) = None
        \<and> files (snd (cleanup directory tracked True w)) =
            files (snd (cleanup directory tracked False w))
        \<and> log (snd (cleanup directory tracked True w)) =
            log (snd (cleanup directory tracked False w))"
    using cleanup_interactive_default [of w n tracked w directory] by blast
  note a = 2 [THEN conjunct1]
    and b = 2 [THEN conjunct2, THEN conjunct1]
    and c = 2 [THEN conjunct2, THEN conjunct2]
  from 1 a b c confirms_empty 3 show ?thesis
    by - (intro conjI; assumption)
qed

text \<open>
  In the example world, with the file of the other directory tracked as well: only that
  file is left, with and without prompting, and the deleted video was tracked and in
  scope.
\<close>

theorem cleanup_scoped_witness:
  "files (snd (cleanup ''/videos'' (Path ''/elsewhere'' ''keep.jpg'' # example_tracked)
                 False example_world)) = {Path ''/elsewhere'' ''keep.jpg''}
   \<and> files (snd (cleanup ''/videos'' (Path ''/elsewhere'' ''keep.jpg'' # example_tracked)
                 True (example_world\<lparr>stdin := replicate 5 []\<rparr>)))
       = {Path ''/elsewhere'' ''keep.jpg''}
   \<and> Path ''/videos'' ''video.mp4''
       \<in> set (Path ''/elsewhere'' ''keep.jpg'' # example_tracked)"
proof -
  let ?t = "Path ''/elsewhere'' ''keep.jpg'' # example_tracked"
  let ?w = "example_world\<lparr>stdin := replicate 5 []\<rparr>"
  have s: "files example_world - {p \<in> set ?t. parent p = ''/videos'' \<and> p \<notin> protected example_world}
      = {Path ''/elsewhere'' ''keep.jpg''}"
    by (auto simp: example_tracked_def example_world_def)
  have s': "files ?w - {p \<in> set ?t. parent p = ''/videos'' \<and> p \<notin> protected ?w}
      = {Path ''/elsewhere'' ''keep.jpg''}"
    by (auto simp: example_tracked_def example_world_def)
  note t = cleanup_scoped [of example_world "''/videos''" ?t False 5]
  note u = cleanup_scoped [of ?w "''/videos''" ?t False 5]
  have 1: "files (snd (cleanup ''/videos'' ?t False example_world))
      = {Path ''/elsewhere'' ''keep.jpg''}"
    using t [THEN conjunct2, THEN conjunct2, THEN conjunct1] s by (rule trans)
  have h: "stdin ?w = replicate 5 [] \<and> length ?t \<le> 5"
    by (simp add: example_tracked_def)
  have "files (snd (cleanup ''/videos'' ?t True ?w)) = files (snd (cleanup ''/videos'' ?t False ?w))"
    using u [THEN conjunct2, THEN conjunct2, THEN conjunct2, THEN conjunct2, THEN conjunct2,
        THEN mp, OF h]
    by (rule conjunct2 [THEN conjunct1])
  also have "\<dots> = {Path ''/elsewhere'' ''keep.jpg''}"
    using u [THEN conjunct2, THEN conjunct2, THEN conjunct1] s' by (rule trans)
  finally have 2: "files (snd (cleanup ''/videos'' ?t True ?w))
      = {Path ''/elsewhere'' ''keep.jpg''}" .
  have g: "Path ''/videos'' ''video.mp4'' \<in> files example_world
      \<and> Path ''/videos'' ''video.mp4''
          \<notin> files (snd (cleanup ''/videos'' ?t False example_world))"
    unfolding 1 by (simp add: example_tracked_def example_world_def)
  have 3: "Path ''/videos'' ''video.mp4'' \<in> set ?t"
    using t [THEN conjunct1, THEN spec, THEN mp, OF g] by (rule conjunct1)
  from 1 2 3 show ?thesis
    by - (intro conjI; assumption)
qed

subsection \<open>Tracking and audio trimming\<close>






lemma run_ffmpeg_trim_audio_error_type:
  assumes "engine (TrimAudio video_path audio_start_time audio_end_time out) = Failed d"
  shows "fst (run_ffmpeg_trim_audio engine video_path audio_start_time audio_end_time out
            tracked w) =
      Some (case d of None \<Rightarrow> AttributeError
            | Some err \<Rightarrow> FileManagementError (''FFmpeg audio trimming error: '' @ strip err))"
    and "fst (run_ffmpeg_trim_audio engine video_path audio_start_time audio_end_time out
            tracked w) \<noteq> Some (FFmpegAudioTrimError m)"
  using assms by (auto simp: run_ffmpeg_trim_audio_def split: option.splits)

text \<open>
  C8. The engine fails during audio extraction. When the error carries the diagnostic
  \<open>moov atom not found\<close>, \<^verbatim>\<open>run_ffmpeg_trim_audio\<close> raises \<^verbatim>\<open>FileManagementError\<close> with
  the diagnostic in its message; when the diagnostic stream was not captured, it raises
  \<^verbatim>\<open>AttributeError\<close>. In both cases it tracks nothing and does not run the engine again,
  and the error is not \<^verbatim>\<open>FFmpegAudioTrimError\<close>.
\<close>

theorem run_ffmpeg_trim_audio_raises_file_management_error:
  "run_ffmpeg_trim_audio engine_fails (Path ''/videos'' ''video.mp4'') 40 70
       (Path ''/videos'' ''video_u_trim_audio.wav'') [] example_world
     = (Some (FileManagementError ''FFmpeg audio trimming error: moov atom not found''),
        [], example_world)
   \<and> run_ffmpeg_trim_audio engine_fails_uncaptured (Path ''/videos'' ''video.mp4'') 40 70
       (Path ''/videos'' ''video_u_trim_audio.wav'') [] example_world
     = (Some AttributeError, [], example_world)"
  by (simp add: run_ffmpeg_trim_audio_def engine_fails_def engine_fails_uncaptured_def
        strip_def is_space_def Let_def)

end
